theory Spec2Isabelle
  imports Complex_Main
begin

section \<open>Baseline extraction of \<open>segmentation/network.py\<close>\<close>

text \<open>
  The development embeds the pure parts of \<open>network.py\<close>: the tensor helpers \<open>pad\<close> and
  \<open>unpad\<close>, and the stages of \<open>extract_baselines\<close> (the class \<open>Cc_with_type\<close>, the nested
  functions \<open>calculate_distance_matrix\<close> and \<open>normalize_connected_components\<close>, and the
  glue between them).  Pixel coordinates are numpy integers, modelled as \<open>int\<close>; an index
  array is a list; an exception is a value of the type \<open>error\<close>.
\<close>

subsection \<open>Errors\<close>

datatype error = ValueError | IndexError | TypeError | ZeroDivisionError

subsection \<open>Components and their descriptors\<close>

text \<open>
  A connected component is what \<open>np.where(labels == x)\<close> returns for a two-dimensional array:
  the pair \<open>(rows, cols)\<close> of index arrays, listed in row-major order.
\<close>

type_synonym cc = "int list \<times> int list"

record Cc_with_type =
  cc :: cc
  cc_left :: "int \<times> int"
  cc_right :: "int \<times> int"
  type :: string

text \<open>\<open>np.where(a == v)[0]\<close> for a one-dimensional array: the positions holding \<open>v\<close>, ascending.\<close>

definition np_where_eq :: "int list \<Rightarrow> int \<Rightarrow> nat list" where
  "np_where_eq a v = filter (\<lambda>i. a ! i = v) [0..<length a]"

text \<open>Python's \<open>max\<close> over a non-empty sequence (\<open>min\<close> is \<open>min_list\<close> of the library).\<close>

fun max_list :: "int list \<Rightarrow> int" where
  "max_list (x # xs) = (case xs of [] \<Rightarrow> x | _ \<Rightarrow> max x (max_list xs))"
| "max_list [] = 0"

text \<open>
  \<open>(cc[0][index][0], cc[1][index][0])\<close> with \<open>index = np.where(cc[1] == v)[0]\<close>: indexing the
  row array with an index array raises \<open>IndexError\<close> when a position is out of its bounds,
  and so does taking element \<open>0\<close> of an empty selection.
\<close>

definition extreme_at :: "cc \<Rightarrow> int \<Rightarrow> error + (int \<times> int)" where
  "extreme_at c v =
     (let index = np_where_eq (snd c) v in
      if \<exists>i \<in> set index. length (fst c) \<le> i then Inl IndexError
      else case index of
             [] \<Rightarrow> Inl IndexError
           | i # _ \<Rightarrow> Inr (fst c ! i, snd c ! i))"

text \<open>\<open>Cc_with_type.__init__\<close>; \<open>min\<close> and \<open>max\<close> of an empty array raise \<open>ValueError\<close>.\<close>

definition Cc_with_type_init :: "cc \<Rightarrow> string \<Rightarrow> error + Cc_with_type" where
  "Cc_with_type_init c ty =
     (if snd c = [] then Inl ValueError
      else case extreme_at c (min_list (snd c)) of
             Inl e \<Rightarrow> Inl e
           | Inr l \<Rightarrow>
               (case extreme_at c (max_list (snd c)) of
                  Inl e \<Rightarrow> Inl e
                | Inr r \<Rightarrow> Inr \<lparr>cc = c, cc_left = l, cc_right = r, type = ty\<rparr>))"

subsection \<open>The distance matrix\<close>

text \<open>
  \<open>vertical_distance\<close> and the tolerance derived from it are Python floats (\<open>10 / 2\<close>,
  \<open>10 * 2 / 3\<close>), compared with integer offsets.  They are modelled as rationals: an integer
  is below the double nearest to \<open>20/3\<close> exactly when it is below \<open>20/3\<close>, and
  \<open>1 / 5 * length\<close> evaluates to the double \<open>10.0\<close> at the only value the function is called
  with, \<open>length = 50\<close>.  The entries themselves are integers stored in a float array.
\<close>

definition vertical_distance :: rat where
  "vertical_distance = 10"

definition left :: "Cc_with_type \<Rightarrow> Cc_with_type \<Rightarrow> bool" where
  "left x y = (snd (cc_left x) > snd (cc_right y))"

definition right :: "Cc_with_type \<Rightarrow> Cc_with_type \<Rightarrow> bool" where
  "right x y = (snd (cc_right x) < snd (cc_left y))"

text \<open>The \<open>if/elif\<close> that narrows \<open>v_distance\<close>, the same in both branches.\<close>

definition v_distance :: "int \<Rightarrow> int \<Rightarrow> rat" where
  "v_distance len distance =
     (if (of_int distance :: rat) < 1 / 5 * of_int len then vertical_distance / 2
      else if distance < len then vertical_distance * 2 / 3
      else vertical_distance)"

text \<open>The variable \<open>distance\<close> at the end of the \<open>else\<close> branch of the inner loop body.\<close>

definition distance_raw :: "int \<Rightarrow> Cc_with_type \<Rightarrow> Cc_with_type \<Rightarrow> int" where
  "distance_raw len x y =
     (if left x y then
        (let distance = snd (cc_left x) - snd (cc_right y);
             v = v_distance len distance
         in if \<not> of_int \<bar>fst (cc_left x) - fst (cc_right y)\<bar> < v
            then distance + \<bar>fst (cc_left x) - fst (cc_right y)\<bar> * 5
            else distance)
      else if right x y then
        (let distance = snd (cc_left y) - snd (cc_right x);
             v = v_distance len distance
         in if \<not> of_int \<bar>fst (cc_left x) - fst (cc_right y)\<bar> < v
            then (if \<not> of_int \<bar>fst (cc_right x) - fst (cc_left y)\<bar> < v
                  then distance + \<bar>fst (cc_left y) - fst (cc_right x)\<bar> * 5
                  else distance)
            else distance)
      else 99999)"

definition same_type :: "Cc_with_type \<Rightarrow> Cc_with_type \<Rightarrow> int" where
  "same_type x y = (if type x = type y then 1 else 100)"

text \<open>
  \<open>calculate_distance_matrix\<close>.  The list it is given holds one freshly constructed object
  per position, so \<open>x is y\<close> holds exactly when the two loop indices are equal.
\<close>

definition calculate_distance_matrix :: "Cc_with_type list \<Rightarrow> int \<Rightarrow> int list list" where
  "calculate_distance_matrix ccs len =
     map (\<lambda>ind1. map (\<lambda>ind2.
            if ind1 = ind2 then 0
            else distance_raw len (ccs ! ind1) (ccs ! ind2) * same_type (ccs ! ind1) (ccs ! ind2))
          [0..<length ccs])
       [0..<length ccs]"

subsection \<open>Curve normalisation\<close>

text \<open>
  \<open>cc_dict\<close> is a \<open>defaultdict(list)\<close>: an association list in insertion order.
  \<open>dict_append d x y\<close> is \<open>cc_dict[x].append(y)\<close>, \<open>dict_get d key\<close> is \<open>cc_dict[key]\<close>.
\<close>

fun dict_append :: "(int \<times> int list) list \<Rightarrow> int \<Rightarrow> int \<Rightarrow> (int \<times> int list) list" where
  "dict_append [] k v = [(k, [v])]"
| "dict_append ((k', vs) # d) k v =
     (if k' = k then (k', vs @ [v]) # d else (k', vs) # dict_append d k v)"

fun dict_get :: "(int \<times> int list) list \<Rightarrow> int \<Rightarrow> int list" where
  "dict_get [] k = []"
| "dict_get ((k', vs) # d) k = (if k' = k then vs else dict_get d k)"

text \<open>
  \<open>np.mean\<close> of a list of integers.  The double it returns, increased by \<open>0.5\<close> and floored,
  agrees with the exact quotient treated the same way as long as the sums stay far below
  \<open>2^52\<close>, which pixel rows of an image do; the mean is modelled as a rational.
\<close>

definition np_mean :: "int list \<Rightarrow> rat" where
  "np_mean value = of_int (sum_list value) / of_nat (length value)"

text \<open>The body of the loop \<open>for cc in point_list\<close>; a sample \<open>[v, key]\<close> is the pair \<open>(v, key)\<close>.\<close>

definition normalize_cc :: "(int \<times> int) list \<Rightarrow> (int \<times> int) list" where
  "normalize_cc c =
     (let cc_dict = foldl (\<lambda>d (y, x). dict_append d x y) [] c
      in map (\<lambda>key. (\<lfloor>np_mean (dict_get cc_dict key) + 1 / 2\<rfloor>, key))
           (sort (map fst cc_dict)))"

definition normalize_connected_components :: "(int \<times> int) list list \<Rightarrow> (int \<times> int) list list" where
  "normalize_connected_components cc_list = map normalize_cc cc_list"

text \<open>The rows of the pixels of \<open>c\<close> in column \<open>k\<close>, in the order of the list.\<close>

definition rows_at :: "(int \<times> int) list \<Rightarrow> int \<Rightarrow> int list" where
  "rows_at c k = map fst (filter (\<lambda>p. snd p = k) c)"

subsection \<open>The stages of \<open>extract_baselines\<close>\<close>

text \<open>A list comprehension whose element expression may raise: the first error wins.\<close>

fun collect :: "(error + 'a) list \<Rightarrow> error + 'a list" where
  "collect [] = Inr []"
| "collect (r # rs) =
     (case r of
        Inl e \<Rightarrow> Inl e
      | Inr v \<Rightarrow> (case collect rs of Inl e \<Rightarrow> Inl e | Inr vs \<Rightarrow> Inr (v # vs)))"

text \<open>\<open>np.where(a == v)\<close> for a two-dimensional array, in row-major order.\<close>

definition np_where2 :: "int list list \<Rightarrow> int \<Rightarrow> cc" where
  "np_where2 a v =
     (let idx = concat (map (\<lambda>r. map (\<lambda>c. (int r, int c))
                                   (filter (\<lambda>c. a ! r ! c = v) [0..<length (a ! r)]))
                         [0..<length a])
      in (map fst idx, map snd idx))"

text \<open>
  The occupancy grid of one class and its components.  \<open>scipy\<close>'s \<open>label\<close> is a parameter:
  it returns the labelled array and the number of labels.
\<close>

definition occupancy :: "int list list \<Rightarrow> int \<Rightarrow> int list list" where
  "occupancy image_map index = map (map (\<lambda>v. if v = index then 1 else 0)) image_map"

definition components :: "(int list list \<Rightarrow> int list list \<times> nat) \<Rightarrow> int list list \<Rightarrow> cc list" where
  "components label grid =
     (case label grid of (ccs, n) \<Rightarrow> map (\<lambda>x. np_where2 ccs (int x)) [1..<n + 1])"

text \<open>\<open>[Cc_with_type(x, ty) for x in ccs if len(x[0]) > 10]\<close>\<close>

definition descriptors :: "cc list \<Rightarrow> string \<Rightarrow> error + Cc_with_type list" where
  "descriptors ccs ty =
     collect (map (\<lambda>x. Cc_with_type_init x ty) (filter (\<lambda>x. length (fst x) > 10) ccs))"

text \<open>\<open>np.unique\<close>: the distinct values, ascending.\<close>

definition np_unique :: "int list \<Rightarrow> int list" where
  "np_unique a = sort (remdups a)"

text \<open>
  The loop over \<open>np.unique(t.labels_)\<close>: the index arrays of the descriptors that carry the
  label, concatenated.  \<open>all_ccs[d]\<close> raises \<open>IndexError\<close> beyond the list.
\<close>

definition cluster_pixels :: "Cc_with_type list \<Rightarrow> int list \<Rightarrow> int \<Rightarrow> error + cc" where
  "cluster_pixels all_ccs labels x =
     (let ind = np_where_eq labels x in
      if \<exists>d \<in> set ind. length all_ccs \<le> d then Inl IndexError
      else (let line = map (\<lambda>d. cc (all_ccs ! d)) ind
            in Inr (concat (map fst line), concat (map snd line))))"

text \<open>
  \<open>list(zip(x[1][0], x[1][1]))\<close>: \<open>x[1]\<close> is the one-dimensional array of columns, so the two
  arguments of \<open>zip\<close> are its first two elements.  Taking them raises \<open>IndexError\<close> on an
  array shorter than two, and \<open>zip\<close> raises \<open>TypeError\<close> on numpy integers, which are not
  iterable.
\<close>

definition zip_points :: "cc \<Rightarrow> error + (int \<times> int) list" where
  "zip_points x = (if length (snd x) < 2 then Inl IndexError else Inl TypeError)"

text \<open>
  Everything after the component lists are known.  The clusterer
  \<open>DBSCAN(eps=50, min_samples=1, metric="precomputed").fit(matrix).labels_\<close> is the parameter
  \<open>fit\<close>.  The loop that paints \<open>debug_image\<close> reads \<open>t.labels_[ind]\<close> for every descriptor
  and raises \<open>IndexError\<close> when there are fewer labels than descriptors.  The function has
  no \<open>return\<close>; the results are the values of \<open>all_ccs\<close>, \<open>matrix\<close>, \<open>t.labels_\<close> and of
  \<open>ccs\<close> after normalisation, which the drawing code then consumes.
\<close>

record stages =
  all_ccs :: "Cc_with_type list"
  matrix :: "int list list"
  labels :: "int list"
  polylines :: "(int \<times> int) list list"

definition cluster_and_normalize ::
    "(int list list \<Rightarrow> error + int list) \<Rightarrow> Cc_with_type list \<Rightarrow> error + stages" where
  "cluster_and_normalize fit ds =
     (let m = calculate_distance_matrix ds 50 in
      case fit m of
        Inl e \<Rightarrow> Inl e
      | Inr ls \<Rightarrow>
          if length ls < length ds then Inl IndexError
          else (case collect (map (cluster_pixels ds ls) (np_unique ls)) of
                  Inl e \<Rightarrow> Inl e
                | Inr ccs \<Rightarrow>
                    (case collect (map zip_points ccs) of
                       Inl e \<Rightarrow> Inl e
                     | Inr pts \<Rightarrow>
                         Inr \<lparr>all_ccs = ds, matrix = m, labels = ls,
                              polylines = normalize_connected_components pts\<rparr>)))"

definition extract_from_components ::
    "(int list list \<Rightarrow> error + int list) \<Rightarrow> cc list \<Rightarrow> cc list \<Rightarrow> error + stages" where
  "extract_from_components fit baseline_ccs baseline_border_ccs =
     (case descriptors baseline_ccs ''baseline'' of
        Inl e \<Rightarrow> Inl e
      | Inr bs \<Rightarrow>
          (case descriptors baseline_border_ccs ''baseline_border'' of
             Inl e \<Rightarrow> Inl e
           | Inr bbs \<Rightarrow> cluster_and_normalize fit (bs @ bbs)))"

definition extract_baselines ::
    "(int list list \<Rightarrow> int list list \<times> nat) \<Rightarrow> (int list list \<Rightarrow> error + int list) \<Rightarrow>
     int list list \<Rightarrow> int \<Rightarrow> int \<Rightarrow> error + stages" where
  "extract_baselines label fit image_map base_line_index base_line_border_index =
     extract_from_components fit
       (components label (occupancy image_map base_line_index))
       (components label (occupancy image_map base_line_border_index))"

subsection \<open>Padding tensors\<close>

text \<open>
  A four-dimensional tensor: its shape \<open>(n, c, h, w)\<close> and its elements, nested in that
  order.  \<open>wf_tensor\<close> says that the elements fill the shape.
\<close>

record 'a tensor =
  shape :: "nat \<times> nat \<times> nat \<times> nat"
  elems :: "'a list list list list"

definition wf_tensor :: "'a tensor \<Rightarrow> bool" where
  "wf_tensor t =
     (case shape t of (n, c, h, w) \<Rightarrow>
        length (elems t) = n \<and>
        (\<forall>p \<in> set (elems t). length p = c \<and>
           (\<forall>m \<in> set p. length m = h \<and> (\<forall>r \<in> set m. length r = w))))"

text \<open>\<open>torch.nn.functional.pad(input, pad=[0, x_dif, 0, h_dif])\<close>: zeros after the last
  column and below the last row.\<close>

definition F_pad :: "'a::zero tensor \<Rightarrow> nat \<Rightarrow> nat \<Rightarrow> 'a tensor" where
  "F_pad t x_dif h_dif =
     (case shape t of (n, c, h, w) \<Rightarrow>
        \<lparr>shape = (n, c, h + h_dif, w + x_dif),
         elems = map (map (\<lambda>m. map (\<lambda>r. r @ replicate x_dif 0) m
                              @ replicate h_dif (replicate (w + x_dif) 0)))
                   (elems t)\<rparr>)"

text \<open>\<open>pad\<close>; the remainder by a zero \<open>factor\<close> raises \<open>ZeroDivisionError\<close>.\<close>

definition pad :: "'a::zero tensor \<Rightarrow> nat \<Rightarrow> error + 'a tensor" where
  "pad t factor =
     (if factor = 0 then Inl ZeroDivisionError
      else case shape t of (n, c, h, w) \<Rightarrow>
        (let h_dif = factor - h mod factor;
             x_dif = factor - w mod factor;
             x_dif = (if factor \<noteq> x_dif then x_dif else 0);
             h_dif = (if factor \<noteq> h_dif then h_dif else 0)
         in if h_dif \<noteq> 0 \<or> x_dif \<noteq> 0 then Inr (F_pad t x_dif h_dif) else Inr t))"

text \<open>\<open>unpad\<close>: the slice \<open>tensor[:, :, :o_shape[0], :o_shape[1]]\<close>.\<close>

definition unpad :: "'a tensor \<Rightarrow> nat \<times> nat \<Rightarrow> 'a tensor" where
  "unpad t o_shape =
     (case shape t of (n, c, h, w) \<Rightarrow>
        \<lparr>shape = (n, c, min h (fst o_shape), min w (snd o_shape)),
         elems = map (map (\<lambda>m. map (take (snd o_shape)) (take (fst o_shape) m))) (elems t)\<rparr>)"

subsection \<open>Descriptors as the constructor builds them\<close>

text \<open>
  \<open>constructed x\<close>: the record \<open>x\<close> is what \<open>Cc_with_type(x.cc, x.type)\<close> returns, so its two
  extreme points are the ones the constructor derives from the component.
\<close>

definition constructed :: "Cc_with_type \<Rightarrow> bool" where
  "constructed x = (Cc_with_type_init (cc x) (type x) = Inr x)"

text \<open>
  The pairs on which the two penalty tests of \<open>calculate_distance_matrix\<close> disagree: \<open>x\<close> is
  left of \<open>y\<close>, the offset between the left end of \<open>x\<close> and the right end of \<open>y\<close> is not
  below the tolerance, and the offset between the right end of \<open>x\<close> and the left end of \<open>y\<close>
  is below it.
\<close>

definition penalty_differs :: "Cc_with_type \<Rightarrow> Cc_with_type \<Rightarrow> bool" where
  "penalty_differs x y =
     (let v = v_distance 50 (snd (cc_left x) - snd (cc_right y))
      in left x y \<and> \<not> of_int \<bar>fst (cc_left x) - fst (cc_right y)\<bar> < v
                  \<and> of_int \<bar>fst (cc_right x) - fst (cc_left y)\<bar> < v)"

subsection \<open>Example components\<close>

text \<open>
  \<open>hbar r c0 n\<close> is a horizontal run of \<open>n\<close> pixels in row \<open>r\<close> starting at column \<open>c0\<close>.
  \<open>d_hook\<close> is a run in row 6 (columns 12 to 14), joined by a vertical run in column 14 to a
  run in row 0 (columns 14 to 18).  Each descriptor is the one the constructor builds from
  its component (\<open>constructed_fixtures\<close> below).
\<close>

definition hbar :: "int \<Rightarrow> int \<Rightarrow> nat \<Rightarrow> cc" where
  "hbar r c0 n = (replicate n r, map (\<lambda>k. c0 + int k) [0..<n])"

definition d_low :: Cc_with_type where
  "d_low = \<lparr>cc = hbar 0 0 11, cc_left = (0, 0), cc_right = (0, 10), type = ''baseline''\<rparr>"

definition d_hook :: Cc_with_type where
  "d_hook = \<lparr>cc = ([0, 0, 0, 0, 0, 1, 2, 3, 4, 5, 6, 6, 6],
                     [14, 15, 16, 17, 18, 14, 14, 14, 14, 14, 12, 13, 14]),
             cc_left = (6, 12), cc_right = (0, 18), type = ''baseline''\<rparr>"

definition d_step :: Cc_with_type where
  "d_step = \<lparr>cc = hbar 5 12 11, cc_left = (5, 12), cc_right = (5, 22), type = ''baseline''\<rparr>"

definition d_near :: Cc_with_type where
  "d_near = \<lparr>cc = hbar 2 13 11, cc_left = (2, 13), cc_right = (2, 23), type = ''baseline''\<rparr>"

definition d_border :: Cc_with_type where
  "d_border = \<lparr>cc = hbar 1 5 11, cc_left = (1, 5), cc_right = (1, 15), type = ''baseline_border''\<rparr>"

definition d_over :: Cc_with_type where
  "d_over = \<lparr>cc = hbar 3 5 11, cc_left = (3, 5), cc_right = (3, 15), type = ''baseline''\<rparr>"

section \<open>Properties\<close>

lemma calculate_distance_matrix_length:
  "length (calculate_distance_matrix ccs len) = length ccs"
  by (simp add: calculate_distance_matrix_def)

subsection \<open>Descriptor construction\<close>

lemma filter_upt_first:
  assumes "filter P [0..<n] = i # rest"
  shows "i < n \<and> P i \<and> (\<forall>j<i. \<not> P j)"
proof -
  from assms obtain us vs where
    xs: "[0..<n] = us @ i # vs" and no: "\<forall>u\<in>set us. \<not> P u" and pi: "P i"
    by (auto simp: filter_eq_Cons_iff)
  have len: "length us < n"
    using arg_cong [OF xs, of length] by simp
  have "[0..<n] ! length us = i"
    by (simp add: xs)
  with len have i: "i = length us" by simp
  have "\<forall>j<i. j \<in> set us"
  proof (intro allI impI)
    fix j assume j: "j < i"
    have "[0..<n] ! j = us ! j" using j i by (simp add: xs nth_append)
    moreover have "[0..<n] ! j = j" using j i len by simp
    ultimately show "j \<in> set us" using j i by (metis nth_mem)
  qed
  with no pi i len show ?thesis by auto
qed

lemma extreme_at_Inr:
  assumes "extreme_at c v = Inr p"
  shows "\<exists>i. i < length (snd c) \<and> i < length (fst c) \<and> p = (fst c ! i, snd c ! i) \<and>
             snd c ! i = v \<and> (\<forall>j<i. snd c ! j \<noteq> v)"
proof -
  let ?index = "np_where_eq (snd c) v"
  from assms have bound: "\<forall>i\<in>set ?index. i < length (fst c)"
    by (auto simp: extreme_at_def Let_def split: if_splits)
  from assms obtain i rest where ix: "?index = i # rest" and p: "p = (fst c ! i, snd c ! i)"
    by (auto simp: extreme_at_def Let_def split: if_splits list.splits)
  from ix have "i < length (snd c) \<and> snd c ! i = v \<and> (\<forall>j<i. snd c ! j \<noteq> v)"
    unfolding np_where_eq_def by (rule filter_upt_first)
  moreover from bound ix have "i < length (fst c)" by simp
  ultimately show ?thesis using p by blast
qed

lemma extreme_at_total:
  assumes "length (fst c) = length (snd c)" and "v \<in> set (snd c)"
  shows "\<exists>p. extreme_at c v = Inr p"
proof -
  from assms(2) obtain k where "k < length (snd c)" "snd c ! k = v"
    by (auto simp: in_set_conv_nth)
  then have "k \<in> set (np_where_eq (snd c) v)"
    by (simp add: np_where_eq_def)
  then obtain i rest where "np_where_eq (snd c) v = i # rest"
    by (cases "np_where_eq (snd c) v") auto
  moreover have "\<forall>i\<in>set (np_where_eq (snd c) v). i < length (fst c)"
    using assms(1) by (simp add: np_where_eq_def)
  ultimately show ?thesis
    by (auto simp: extreme_at_def Let_def)
qed

lemma max_list_Max: "xs \<noteq> [] \<Longrightarrow> max_list xs = Max (set xs)"
  by (induction xs rule: max_list.induct) (auto simp: max_def split: list.splits)

lemma Cc_with_type_init_Inr:
  assumes "Cc_with_type_init c ty = Inr d"
  shows "snd c \<noteq> [] \<and> cc d = c \<and> type d = ty \<and>
         extreme_at c (Min (set (snd c))) = Inr (cc_left d) \<and>
         extreme_at c (Max (set (snd c))) = Inr (cc_right d)"
  using assms
  by (auto simp: Cc_with_type_init_def min_list_Min max_list_Max split: if_splits sum.splits)

lemma constructed_span:
  assumes "constructed x"
  shows "snd (cc_left x) \<le> snd (cc_right x)"
proof -
  from assms have init: "Cc_with_type_init (cc x) (type x) = Inr x"
    by (simp add: constructed_def)
  note facts = Cc_with_type_init_Inr [OF init]
  from facts have ne: "snd (cc x) \<noteq> []" by simp
  from facts extreme_at_Inr [of "cc x" "Min (set (snd (cc x)))" "cc_left x"]
  have l: "snd (cc_left x) = Min (set (snd (cc x)))" by auto
  from facts extreme_at_Inr [of "cc x" "Max (set (snd (cc x)))" "cc_right x"]
  have r: "snd (cc_right x) = Max (set (snd (cc x)))" by auto
  from ne have "Min (set (snd (cc x))) \<le> Max (set (snd (cc x)))"
    by (simp add: Min_le_iff)
  with l r show ?thesis by simp
qed

lemma constructed_not_both:
  assumes "constructed x" "constructed y"
  shows "\<not> (left x y \<and> right x y)"
  using constructed_span [OF assms(1)] constructed_span [OF assms(2)]
  by (auto simp: left_def right_def)

subsection \<open>The distance matrix\<close>

lemma matrix_nth:
  assumes "i < length ccs" "j < length ccs"
  shows "calculate_distance_matrix ccs len ! i ! j =
         (if i = j then 0
          else distance_raw len (ccs ! i) (ccs ! j) * same_type (ccs ! i) (ccs ! j))"
  using assms by (simp add: calculate_distance_matrix_def)

lemma v_distance_50:
  "v_distance 50 g = (if g < 10 then 5 else if g < 50 then 20 / 3 else 10)"
  by (simp add: v_distance_def vertical_distance_def)

lemma v_distance_pos: "0 < v_distance 50 g"
  by (simp add: v_distance_50)

lemma constructed_fixtures:
  "constructed d_low" "constructed d_hook" "constructed d_step" "constructed d_near"
  "constructed d_border" "constructed d_over"
  unfolding constructed_def d_low_def d_hook_def d_step_def d_near_def d_border_def d_over_def hbar_def
  by code_simp+

lemma distance_raw_left:
  assumes "left x y"
  shows "distance_raw len x y =
         snd (cc_left x) - snd (cc_right y) +
         (if \<not> of_int \<bar>fst (cc_left x) - fst (cc_right y)\<bar>
                < v_distance len (snd (cc_left x) - snd (cc_right y))
          then 5 * \<bar>fst (cc_left x) - fst (cc_right y)\<bar> else 0)"
  using assms by (simp add: distance_raw_def Let_def)

lemma distance_raw_right:
  assumes "right x y" "\<not> left x y"
  shows "distance_raw len x y =
         snd (cc_left y) - snd (cc_right x) +
         (if \<not> of_int \<bar>fst (cc_left x) - fst (cc_right y)\<bar>
                < v_distance len (snd (cc_left y) - snd (cc_right x)) \<and>
             \<not> of_int \<bar>fst (cc_right x) - fst (cc_left y)\<bar>
                < v_distance len (snd (cc_left y) - snd (cc_right x))
          then 5 * \<bar>fst (cc_left y) - fst (cc_right x)\<bar> else 0)"
  using assms by (simp add: distance_raw_def Let_def)

lemma same_type_sym: "same_type x y = same_type y x"
  by (auto simp: same_type_def)

lemma same_type_pos: "0 < same_type x y"
  by (simp add: same_type_def)

text \<open>
  C2, as stated, fails: a baseline component and a baseline-border component with
  overlapping horizontal spans get the entry \<open>99999 * 100\<close>, not \<open>99999\<close>.
\<close>
theorem overlap_sentinel_counterexample:
  "constructed d_low \<and> constructed d_border \<and>
   \<not> left d_low d_border \<and> \<not> right d_low d_border \<and>
   calculate_distance_matrix [d_low, d_border] 50 ! 0 ! 1 = 9999900"
  unfolding constructed_def d_low_def d_border_def hbar_def by code_simp

text \<open>
  C2 (amended): for two distinct descriptors of the list whose horizontal spans overlap
  (neither \<open>left\<close> nor \<open>right\<close> holds), the matrix entry is the sentinel 99999 multiplied by
  the same-type factor: 99999 when the type tags agree and 9999900 when they differ.
\<close>
theorem overlap_sentinel:
  assumes "i < length ccs" "j < length ccs" "i \<noteq> j"
    and "\<not> left (ccs ! i) (ccs ! j)" "\<not> right (ccs ! i) (ccs ! j)"
  shows "calculate_distance_matrix ccs 50 ! i ! j =
         (if type (ccs ! i) = type (ccs ! j) then 99999 else 99999 * 100)"
  using assms by (simp add: matrix_nth distance_raw_def same_type_def)

text \<open>C2 (amended) at a bar, an overlapping bar of the same type and one of the other type.\<close>
theorem overlap_sentinel_witness:
  "calculate_distance_matrix [d_low, d_over, d_border] 50 ! 0 ! 1 = 99999 \<and>
   calculate_distance_matrix [d_low, d_over, d_border] 50 ! 0 ! 2 = 9999900"
proof -
  have a: "\<not> left ([d_low, d_over, d_border] ! 0) ([d_low, d_over, d_border] ! 1)"
          "\<not> right ([d_low, d_over, d_border] ! 0) ([d_low, d_over, d_border] ! 1)"
          "\<not> left ([d_low, d_over, d_border] ! 0) ([d_low, d_over, d_border] ! 2)"
          "\<not> right ([d_low, d_over, d_border] ! 0) ([d_low, d_over, d_border] ! 2)"
    by (simp_all add: left_def right_def d_low_def d_over_def d_border_def)
  show ?thesis
    using overlap_sentinel [of 0 "[d_low, d_over, d_border]" 1, OF _ _ _ a(1) a(2)]
      overlap_sentinel [of 0 "[d_low, d_over, d_border]" 2, OF _ _ _ a(3) a(4)]
    by (simp add: d_low_def d_over_def d_border_def)
qed


text \<open>
  C5, as stated, fails where the vertical offset equals the tolerance: with gap 2 the
  tolerance is 5, the offset 5 does not exceed it, and the penalty is added all the same.
\<close>
theorem left_of_distance_counterexample:
  "constructed d_step \<and> constructed d_low \<and> left d_step d_low \<and>
   snd (cc_left d_step) - snd (cc_right d_low) = 2 \<and>
   \<bar>fst (cc_left d_step) - fst (cc_right d_low)\<bar> = 5 \<and>
   v_distance 50 2 = 5 \<and>
   distance_raw 50 d_step d_low = 27"
  unfolding constructed_def d_low_def d_step_def hbar_def by code_simp

text \<open>
  C5 (amended): for two distinct descriptors \<open>x\<close>, \<open>y\<close> of the list with \<open>x\<close> left of \<open>y\<close>
  and gap \<open>g = x.cc_left[1] - y.cc_right[1]\<close>, the tolerance is 5 when \<open>g < 10\<close>, \<open>20/3\<close>
  when \<open>10 \<le> g < 50\<close> and 10 otherwise; the distance before the type factor is \<open>g\<close> when
  the vertical offset \<open>|x.cc_left[0] - y.cc_right[0]|\<close> is strictly below the tolerance and
  \<open>g + 5 * offset\<close> when it is not below it (equal or greater).  In particular, for two
  components of the same type with \<open>g < 10\<close> and offset below 5 the matrix entry is \<open>g\<close>.
\<close>
theorem left_of_distance:
  fixes ccs :: "Cc_with_type list" and i j :: nat
  defines "x \<equiv> ccs ! i" and "y \<equiv> ccs ! j"
  defines "g \<equiv> snd (cc_left x) - snd (cc_right y)"
    and "off \<equiv> \<bar>fst (cc_left x) - fst (cc_right y)\<bar>"
  assumes "i < length ccs" "j < length ccs" "i \<noteq> j" and "left x y"
  shows "v_distance 50 g = (if g < 10 then 5 else if g < 50 then 2 * 10 / 3 else 10) \<and>
         distance_raw 50 x y = (if of_int off < v_distance 50 g then g else g + 5 * off) \<and>
         (type x = type y \<and> g < 10 \<and> off < 5 \<longrightarrow>
            calculate_distance_matrix ccs 50 ! i ! j = g)"
proof (intro conjI impI)
  show "v_distance 50 g = (if g < 10 then 5 else if g < 50 then 2 * 10 / 3 else 10)"
    by (simp add: v_distance_50)
  show raw: "distance_raw 50 x y = (if of_int off < v_distance 50 g then g else g + 5 * off)"
    using \<open>left x y\<close> by (simp add: distance_raw_left g_def off_def)
  assume a: "type x = type y \<and> g < 10 \<and> off < 5"
  then have "of_int off < v_distance 50 g" by (simp add: v_distance_50)
  with raw a assms show "calculate_distance_matrix ccs 50 ! i ! j = g"
    by (simp add: matrix_nth same_type_def)
qed

text \<open>C5 (amended) at two bars of the same type with gap 3 and vertical offset 2.\<close>
theorem left_of_distance_witness:
  "v_distance 50 3 = 5 \<and> distance_raw 50 d_near d_low = 3 \<and>
   calculate_distance_matrix [d_near, d_low] 50 ! 0 ! 1 = 3"
proof -
  have l: "left ([d_near, d_low] ! 0) ([d_near, d_low] ! 1)"
    by (simp add: left_def d_near_def d_low_def)
  show ?thesis
    using left_of_distance [of 0 "[d_near, d_low]" 1, OF _ _ _ l]
    by (simp add: d_near_def d_low_def)
qed


text \<open>
  C4: for descriptors \<open>x\<close>, \<open>y\<close> built by the constructor with \<open>x\<close> right of \<open>y\<close>, the
  distance before the type factor is the gap \<open>y.cc_left[1] - x.cc_right[1]\<close>, to which
  \<open>5 * |y.cc_left[0] - x.cc_right[0]|\<close> is added exactly when both offsets
  \<open>|x.cc_left[0] - y.cc_right[0]|\<close> and \<open>|x.cc_right[0] - y.cc_left[0]|\<close> are not below the
  tolerance; when \<open>x\<close> is left of \<open>y\<close> the penalty \<open>5 * |x.cc_left[0] - y.cc_right[0]|\<close> is
  added exactly when that single offset is not below the tolerance.
\<close>
theorem right_of_distance:
  assumes "constructed x" "constructed y"
  shows "(right x y \<longrightarrow>
            distance_raw 50 x y =
            snd (cc_left y) - snd (cc_right x) +
            (if \<not> of_int \<bar>fst (cc_left x) - fst (cc_right y)\<bar>
                   < v_distance 50 (snd (cc_left y) - snd (cc_right x)) \<and>
                \<not> of_int \<bar>fst (cc_right x) - fst (cc_left y)\<bar>
                   < v_distance 50 (snd (cc_left y) - snd (cc_right x))
             then 5 * \<bar>fst (cc_left y) - fst (cc_right x)\<bar> else 0)) \<and>
         (left x y \<longrightarrow>
            distance_raw 50 x y =
            snd (cc_left x) - snd (cc_right y) +
            (if \<not> of_int \<bar>fst (cc_left x) - fst (cc_right y)\<bar>
                   < v_distance 50 (snd (cc_left x) - snd (cc_right y))
             then 5 * \<bar>fst (cc_left x) - fst (cc_right y)\<bar> else 0))"
  using constructed_not_both [OF assms] distance_raw_left [of x y 50] distance_raw_right [of x y 50]
  by blast

text \<open>C4 at a bar and the components to its right, and at the hook left of the bar.\<close>
theorem right_of_distance_witness:
  "right d_low d_hook \<and> distance_raw 50 d_low d_hook = 2 \<and>
   right d_low d_step \<and> distance_raw 50 d_low d_step = 27 \<and>
   left d_hook d_low \<and> distance_raw 50 d_hook d_low = 32"
proof -
  have r: "right d_low d_hook" "right d_low d_step" "left d_hook d_low"
    by (simp_all add: left_def right_def d_low_def d_hook_def d_step_def)
  show ?thesis
    using r right_of_distance [OF constructed_fixtures(1) constructed_fixtures(2)]
      right_of_distance [OF constructed_fixtures(1) constructed_fixtures(3)]
      right_of_distance [OF constructed_fixtures(2) constructed_fixtures(1)]
    by (simp add: d_low_def d_hook_def d_step_def v_distance_50)
qed


text \<open>
  C1, as stated, fails: for the hook-shaped component and the bar to its left the entry
  \<open>(0, 1)\<close> is 32 and the entry \<open>(1, 0)\<close> is 2.
\<close>
theorem matrix_symmetric_counterexample:
  "constructed d_hook \<and> constructed d_low \<and>
   calculate_distance_matrix [d_hook, d_low] 50 ! 0 ! 1 = 32 \<and>
   calculate_distance_matrix [d_hook, d_low] 50 ! 1 ! 0 = 2"
  unfolding constructed_def d_low_def d_hook_def hbar_def by code_simp

lemma entry_left_right:
  assumes cx: "constructed x" and cy: "constructed y" and l: "left x y"
  shows "(distance_raw 50 x y * same_type x y = distance_raw 50 y x * same_type y x)
         = (\<not> penalty_differs x y)"
proof -
  let ?g = "snd (cc_left x) - snd (cc_right y)"
  let ?o1 = "\<bar>fst (cc_left x) - fst (cc_right y)\<bar>"
  let ?o2 = "\<bar>fst (cc_right x) - fst (cc_left y)\<bar>"
  from l have r: "right y x" by (simp add: left_def right_def)
  from constructed_not_both [OF cy cx] r have nl: "\<not> left y x" by blast
  have xy: "distance_raw 50 x y = ?g + (if \<not> of_int ?o1 < v_distance 50 ?g then 5 * ?o1 else 0)"
    using l by (rule distance_raw_left)
  have yx: "distance_raw 50 y x =
      ?g + (if \<not> of_int ?o2 < v_distance 50 ?g \<and> \<not> of_int ?o1 < v_distance 50 ?g
            then 5 * ?o1 else 0)"
    using distance_raw_right [OF r nl, of 50] by (simp add: abs_minus_commute)
  have pos: "\<not> of_int ?o1 < v_distance 50 ?g \<Longrightarrow> 0 < ?o1"
    using v_distance_pos [of ?g] by (cases "?o1 = 0") auto
  have "(distance_raw 50 x y = distance_raw 50 y x) = (\<not> penalty_differs x y)"
    using l pos by (auto simp: xy yx penalty_differs_def Let_def)
  moreover have "same_type y x = same_type x y" by (rule same_type_sym)
  ultimately show ?thesis using same_type_pos [of x y] by simp
qed

lemma penalty_differs_left: "penalty_differs x y \<Longrightarrow> left x y"
  by (simp add: penalty_differs_def Let_def)

text \<open>
  C1 (amended): for every list of descriptors built by the constructor, every diagonal
  entry of the matrix is zero, and the entries \<open>(i, j)\<close> and \<open>(j, i)\<close> are equal exactly
  when \<open>i = j\<close> or the two penalty tests agree on the pair, that is, when neither
  \<open>penalty_differs x y\<close> nor \<open>penalty_differs y x\<close> holds.
\<close>
theorem matrix_diagonal_symmetry:
  assumes "\<forall>d \<in> set ccs. constructed d" and "i < length ccs" "j < length ccs"
  shows "calculate_distance_matrix ccs 50 ! i ! i = 0 \<and>
         (calculate_distance_matrix ccs 50 ! i ! j = calculate_distance_matrix ccs 50 ! j ! i
          \<longleftrightarrow> i = j \<or>
              \<not> penalty_differs (ccs ! i) (ccs ! j) \<and> \<not> penalty_differs (ccs ! j) (ccs ! i))"
proof (cases "i = j")
  case True
  with assms show ?thesis by (simp add: matrix_nth)
next
  case False
  let ?x = "ccs ! i" and ?y = "ccs ! j"
  from assms have cx: "constructed ?x" and cy: "constructed ?y" by simp_all
  have sym: "(distance_raw 50 ?x ?y * same_type ?x ?y = distance_raw 50 ?y ?x * same_type ?y ?x)
         = (\<not> penalty_differs ?x ?y \<and> \<not> penalty_differs ?y ?x)"
  proof (cases "left ?x ?y")
    case True
    then have "right ?y ?x" by (simp add: left_def right_def)
    with constructed_not_both [OF cy cx] have "\<not> left ?y ?x" by blast
    then have "\<not> penalty_differs ?y ?x" using penalty_differs_left by blast
    with entry_left_right [OF cx cy True] show ?thesis by simp
  next
    case nl: False
    then have npx: "\<not> penalty_differs ?x ?y" using penalty_differs_left by blast
    show ?thesis
    proof (cases "left ?y ?x")
      case True
      with entry_left_right [OF cy cx True] npx show ?thesis by auto
    next
      case False
      then have "\<not> penalty_differs ?y ?x" using penalty_differs_left by blast
      moreover from nl False have "\<not> right ?x ?y" "\<not> right ?y ?x"
        by (simp_all add: left_def right_def)
      ultimately show ?thesis using nl False npx
        by (simp add: distance_raw_def same_type_sym)
    qed
  qed
  from False assms sym show ?thesis by (simp add: matrix_nth)
qed

text \<open>C1 (amended) at a bar, a border bar below it and the hook to its right: the first pair is
  symmetric, the bar and the hook are not.\<close>
theorem matrix_diagonal_symmetry_witness:
  "calculate_distance_matrix [d_low, d_border, d_hook] 50 ! 1 ! 1 = 0 \<and>
   calculate_distance_matrix [d_low, d_border, d_hook] 50 ! 0 ! 1 =
   calculate_distance_matrix [d_low, d_border, d_hook] 50 ! 1 ! 0 \<and>
   calculate_distance_matrix [d_low, d_border, d_hook] 50 ! 0 ! 2 \<noteq>
   calculate_distance_matrix [d_low, d_border, d_hook] 50 ! 2 ! 0"
proof -
  have c: "\<forall>d \<in> set [d_low, d_border, d_hook]. constructed d"
    using constructed_fixtures by simp
  have p: "\<not> penalty_differs d_low d_border" "\<not> penalty_differs d_border d_low"
     "penalty_differs d_hook d_low"
    by (simp_all add: penalty_differs_def left_def d_low_def d_border_def d_hook_def v_distance_50)
  show ?thesis
    using matrix_diagonal_symmetry [OF c, of 1 1] matrix_diagonal_symmetry [OF c, of 0 1]
      matrix_diagonal_symmetry [OF c, of 0 2] p
    by simp
qed

subsection \<open>The extreme points of a descriptor\<close>


text \<open>
  C8: for a non-empty component (index arrays \<open>rows\<close> and \<open>cols\<close> of equal length) the
  constructor succeeds; \<open>cc_left\<close> is the pixel at the first position \<open>i\<close> of the arrays whose
  column is the minimum column, and \<open>cc_right\<close> the pixel at the first position \<open>k\<close> whose
  column is the maximum column.  When the rows are ascending, as \<open>np.where\<close> lists them,
  that pixel has the least row among the pixels of that column.
\<close>
theorem extremes_first_at_min_max:
  assumes "length rows = length cols" and "cols \<noteq> []"
  shows "\<exists>d i k. Cc_with_type_init (rows, cols) ty = Inr d \<and>
           i < length cols \<and> cc_left d = (rows ! i, cols ! i) \<and>
           cols ! i = Min (set cols) \<and> (\<forall>j<i. cols ! j \<noteq> Min (set cols)) \<and>
           (sorted rows \<longrightarrow> (\<forall>j<length cols. cols ! j = Min (set cols) \<longrightarrow> rows ! i \<le> rows ! j)) \<and>
           k < length cols \<and> cc_right d = (rows ! k, cols ! k) \<and>
           cols ! k = Max (set cols) \<and> (\<forall>j<k. cols ! j \<noteq> Max (set cols)) \<and>
           (sorted rows \<longrightarrow> (\<forall>j<length cols. cols ! j = Max (set cols) \<longrightarrow> rows ! k \<le> rows ! j))"
proof -
  let ?c = "(rows, cols)"
  have first: "\<exists>p i. extreme_at ?c v = Inr p \<and> i < length cols \<and> p = (rows ! i, cols ! i) \<and>
                 cols ! i = v \<and> (\<forall>j<i. cols ! j \<noteq> v) \<and>
                 (sorted rows \<longrightarrow> (\<forall>j<length cols. cols ! j = v \<longrightarrow> rows ! i \<le> rows ! j))"
    if v: "v \<in> set cols" for v
  proof -
    from extreme_at_total [of ?c v] assms(1) v obtain p where p: "extreme_at ?c v = Inr p"
      by auto
    from extreme_at_Inr [OF p] obtain i where
      i: "i < length cols" "p = (rows ! i, cols ! i)" "cols ! i = v" "\<forall>j<i. cols ! j \<noteq> v"
      by auto
    have "rows ! i \<le> rows ! j" if s: "sorted rows" and j: "j < length cols" "cols ! j = v" for j
    proof -
      have "i \<le> j"
      proof (rule ccontr)
        assume "\<not> i \<le> j"
        then have "j < i" by simp
        with i(4) j(2) show False by blast
      qed
      with s j(1) assms(1) show ?thesis by (simp add: sorted_nth_mono)
    qed
    with p i show ?thesis by blast
  qed
  from assms(2) have mn: "Min (set cols) \<in> set cols" and mx: "Max (set cols) \<in> set cols"
    by (simp_all add: Min_in Max_in)
  from first [OF mn] obtain l i where
    l: "extreme_at ?c (Min (set cols)) = Inr l" "i < length cols" "l = (rows ! i, cols ! i)"
       "cols ! i = Min (set cols)" "\<forall>j<i. cols ! j \<noteq> Min (set cols)"
       "sorted rows \<longrightarrow> (\<forall>j<length cols. cols ! j = Min (set cols) \<longrightarrow> rows ! i \<le> rows ! j)"
    by blast
  from first [OF mx] obtain r k where
    r: "extreme_at ?c (Max (set cols)) = Inr r" "k < length cols" "r = (rows ! k, cols ! k)"
       "cols ! k = Max (set cols)" "\<forall>j<k. cols ! j \<noteq> Max (set cols)"
       "sorted rows \<longrightarrow> (\<forall>j<length cols. cols ! j = Max (set cols) \<longrightarrow> rows ! k \<le> rows ! j)"
    by blast
  have "Cc_with_type_init ?c ty = Inr \<lparr>cc = ?c, cc_left = l, cc_right = r, type = ty\<rparr>"
    using assms(2) l(1) r(1) by (simp add: Cc_with_type_init_def min_list_Min max_list_Max)
  with l r show ?thesis
    by (intro exI [of _ "\<lparr>cc = ?c, cc_left = l, cc_right = r, type = ty\<rparr>"] exI [of _ i] exI [of _ k])
      simp
qed

text \<open>C8 at the hook-shaped component.\<close>
theorem extremes_first_at_min_max_witness:
  "\<exists>d. Cc_with_type_init (cc d_hook) ''baseline'' = Inr d \<and>
       cc_left d = (6, 12) \<and> cc_right d = (0, 18)"
proof -
  have "length (fst (cc d_hook)) = length (snd (cc d_hook))" "snd (cc d_hook) \<noteq> []"
    by (simp_all add: d_hook_def)
  from extremes_first_at_min_max [OF this, of "''baseline''"]
  obtain d i k where d: "Cc_with_type_init (cc d_hook) ''baseline'' = Inr d"
    by auto
  moreover have "Cc_with_type_init (cc d_hook) ''baseline'' = Inr d_hook"
    using constructed_fixtures(2) by (simp add: constructed_def d_hook_def)
  ultimately have "d = d_hook" by simp
  with d show ?thesis by (auto simp: d_hook_def)
qed

subsection \<open>Curve normalisation\<close>

lemma dict_append_keys:
  "set (map fst (dict_append d k v)) = insert k (set (map fst d))"
  by (induction d k v rule: dict_append.induct) auto

lemma dict_append_distinct:
  "distinct (map fst d) \<Longrightarrow> distinct (map fst (dict_append d k v))"
proof (induction d k v rule: dict_append.induct)
  case (1 k v)
  show ?case by simp
next
  case (2 k' vs d k v)
  then show ?case
    using dict_append_keys [of d k v] by auto
qed

lemma dict_get_append:
  "dict_get (dict_append d k v) k' = (if k' = k then dict_get d k @ [v] else dict_get d k')"
  by (induction d k v rule: dict_append.induct) auto

lemma cc_dict_keys:
  "set (map fst (foldl (\<lambda>d (y, x). dict_append d x y) d c)) = set (map fst d) \<union> snd ` set c"
proof (induction c arbitrary: d)
  case Nil
  show ?case by simp
next
  case (Cons p c)
  obtain y x where p: "p = (y, x)" by (cases p)
  show ?case
    using Cons [of "dict_append d x y"] dict_append_keys [of d x y] by (simp add: p)
qed

lemma cc_dict_distinct:
  "distinct (map fst d) \<Longrightarrow> distinct (map fst (foldl (\<lambda>d (y, x). dict_append d x y) d c))"
proof (induction c arbitrary: d)
  case Nil
  then show ?case by simp
next
  case (Cons p c)
  obtain y x where p: "p = (y, x)" by (cases p)
  from Cons.prems have "distinct (map fst (dict_append d x y))"
    by (rule dict_append_distinct)
  from Cons.IH [OF this] show ?case by (simp add: p)
qed

lemma cc_dict_get:
  "dict_get (foldl (\<lambda>d (y, x). dict_append d x y) d c) k = dict_get d k @ rows_at c k"
proof (induction c arbitrary: d)
  case Nil
  show ?case by (simp add: rows_at_def)
next
  case (Cons p c)
  obtain y x where p: "p = (y, x)" by (cases p)
  show ?case
    using Cons [of "dict_append d x y"] by (simp add: p dict_get_append rows_at_def)
qed

lemma sorted_keys:
  "sort (map fst (foldl (\<lambda>d (y, x). dict_append d x y) [] c)) = sorted_list_of_set (snd ` set c)"
proof -
  let ?ks = "map fst (foldl (\<lambda>d (y, x). dict_append d x y) [] c)"
  have d: "distinct ?ks" by (rule cc_dict_distinct) simp
  have s: "set ?ks = snd ` set c" using cc_dict_keys [of "[]" c] by simp
  have "sorted_list_of_set (set ?ks) = sort (remdups ?ks)"
    by (rule sorted_list_of_set_sort_remdups)
  with d s show ?thesis by (simp add: distinct_remdups_id)
qed

lemma normalize_cc_eq:
  "normalize_cc c =
   map (\<lambda>key. (\<lfloor>np_mean (rows_at c key) + 1 / 2\<rfloor>, key)) (sorted_list_of_set (snd ` set c))"
  by (simp add: normalize_cc_def Let_def sorted_keys cc_dict_get)

lemma normalize_cc_columns:
  "map snd (normalize_cc c) = sorted_list_of_set (snd ` set c)"
  by (simp add: normalize_cc_eq comp_def)

lemma normalize_cc_sample:
  assumes "(v, k) \<in> set (normalize_cc c)"
  shows "k \<in> snd ` set c \<and> v = \<lfloor>np_mean (rows_at c k) + 1 / 2\<rfloor>"
  using assms by (auto simp: normalize_cc_eq)

lemma rows_at_nonempty: "k \<in> snd ` set c \<Longrightarrow> rows_at c k \<noteq> []"
  by (auto simp: rows_at_def filter_empty_conv)

lemma sum_list_bounds:
  fixes xs :: "int list"
  assumes "\<forall>x \<in> set xs. lo \<le> x \<and> x \<le> hi"
  shows "int (length xs) * lo \<le> sum_list xs \<and> sum_list xs \<le> int (length xs) * hi"
  using assms by (induction xs) (auto simp: algebra_simps)

lemma np_mean_bounds:
  assumes "xs \<noteq> []"
  shows "of_int (Min (set xs)) \<le> np_mean xs \<and> np_mean xs \<le> of_int (Max (set xs))"
proof -
  let ?n = "length xs"
  from assms have n: "0 < (of_nat ?n :: rat)" by simp
  have "\<forall>x \<in> set xs. Min (set xs) \<le> x \<and> x \<le> Max (set xs)" by simp
  from sum_list_bounds [OF this]
  have lo: "int ?n * Min (set xs) \<le> sum_list xs" and hi: "sum_list xs \<le> int ?n * Max (set xs)"
    by simp_all
  from lo have "(of_int (int ?n * Min (set xs)) :: rat) \<le> of_int (sum_list xs)"
    by (simp only: of_int_le_iff)
  then have a: "of_int (Min (set xs)) * of_nat ?n \<le> (of_int (sum_list xs) :: rat)"
    by (simp add: mult.commute)
  from hi have "(of_int (sum_list xs) :: rat) \<le> of_int (int ?n * Max (set xs))"
    by (simp only: of_int_le_iff)
  then have b: "(of_int (sum_list xs) :: rat) \<le> of_int (Max (set xs)) * of_nat ?n"
    by (simp add: mult.commute)
  from a b n show ?thesis
    by (simp add: np_mean_def pos_le_divide_eq pos_divide_le_eq)
qed

lemma round_half_up_bounds:
  fixes q :: rat
  assumes "of_int lo \<le> q" "q \<le> of_int hi"
  shows "lo \<le> \<lfloor>q + 1 / 2\<rfloor> \<and> \<lfloor>q + 1 / 2\<rfloor> \<le> hi"
proof
  from assms(1) have "of_int lo \<le> q + 1 / 2" by simp
  then show "lo \<le> \<lfloor>q + 1 / 2\<rfloor>" by (simp add: le_floor_iff)
  from assms(2) have "q + 1 / 2 < of_int hi + 1" by simp
  then show "\<lfloor>q + 1 / 2\<rfloor> \<le> hi" by (simp add: floor_le_iff)
qed


text \<open>
  C6: for every cluster \<open>cc_list ! i\<close>, the normalised curve has exactly one sample per
  distinct column of the cluster (its columns are the sorted list of the set of columns, so
  they are strictly increasing and as many as there are distinct columns), and the
  vertical position of the sample at column \<open>k\<close> is \<open>floor(mean(rows at k) + 0.5)\<close>.
\<close>
theorem normalize_one_sample_per_column:
  assumes "i < length cc_list"
  shows "map snd (normalize_connected_components cc_list ! i)
           = sorted_list_of_set (snd ` set (cc_list ! i)) \<and>
         sorted_wrt (<) (map snd (normalize_connected_components cc_list ! i)) \<and>
         set (map snd (normalize_connected_components cc_list ! i)) = snd ` set (cc_list ! i) \<and>
         length (normalize_connected_components cc_list ! i) = card (snd ` set (cc_list ! i)) \<and>
         (\<forall>(v, k) \<in> set (normalize_connected_components cc_list ! i).
            v = \<lfloor>np_mean (rows_at (cc_list ! i) k) + 1 / 2\<rfloor>)"
proof -
  let ?c = "cc_list ! i"
  from assms have r: "normalize_connected_components cc_list ! i = normalize_cc ?c"
    by (simp add: normalize_connected_components_def)
  have cols: "map snd (normalize_cc ?c) = sorted_list_of_set (snd ` set ?c)"
    by (rule normalize_cc_columns)
  have "length (normalize_cc ?c) = length (map snd (normalize_cc ?c))" by simp
  also have "\<dots> = card (snd ` set ?c)" by (simp only: cols) simp
  finally have len: "length (normalize_cc ?c) = card (snd ` set ?c)" .
  have "sorted_wrt (<) (sorted_list_of_set (snd ` set ?c))"
    by (rule strict_sorted_list_of_set)
  moreover have "set (sorted_list_of_set (snd ` set ?c)) = snd ` set ?c" by simp
  moreover have "\<forall>(v, k) \<in> set (normalize_cc ?c). v = \<lfloor>np_mean (rows_at ?c k) + 1 / 2\<rfloor>"
    using normalize_cc_sample by blast
  ultimately show ?thesis using cols len by (simp add: r)
qed

text \<open>C6 at a cluster of six pixels in three columns.\<close>
theorem normalize_one_sample_per_column_witness:
  "normalize_connected_components [[(1, 2), (2, 2), (5, 1), (4, 2), (2, 3), (3, 3)]] ! 0
     = [(5, 1), (2, 2), (3, 3)] \<and>
   sorted_wrt (<) (map snd (normalize_connected_components
      [[(1, 2), (2, 2), (5, 1), (4, 2), (2, 3), (3, 3)]] ! 0))"
proof -
  have "(0::nat) < length [[(1, 2), (2, 2), (5, 1), (4, 2), (2, 3), (3, 3 :: int)]]" by simp
  from normalize_one_sample_per_column [OF this]
  have "sorted_wrt (<) (map snd (normalize_connected_components
      [[(1, 2), (2, 2), (5, 1), (4, 2), (2, 3), (3, 3)]] ! 0))" by blast
  moreover have "normalize_connected_components
      [[(1, 2), (2, 2), (5, 1), (4, 2), (2, 3), (3, 3)]] ! 0 = [(5, 1), (2, 2), (3, 3)]"
    by code_simp
  ultimately show ?thesis by blast
qed


text \<open>
  C10: every sample \<open>(v, k)\<close> of the normalised curve of a cluster belongs to a column \<open>k\<close>
  of the cluster, and \<open>v\<close> lies between the least and the greatest row of the cluster's
  pixels in that column.
\<close>
theorem normalize_within_rows:
  assumes "i < length cc_list"
    and "(v, k) \<in> set (normalize_connected_components cc_list ! i)"
  shows "k \<in> snd ` set (cc_list ! i) \<and>
         Min (set (rows_at (cc_list ! i) k)) \<le> v \<and> v \<le> Max (set (rows_at (cc_list ! i) k))"
proof -
  let ?c = "cc_list ! i"
  from assms have "(v, k) \<in> set (normalize_cc ?c)"
    by (simp add: normalize_connected_components_def)
  from normalize_cc_sample [OF this]
  have k: "k \<in> snd ` set ?c" and v: "v = \<lfloor>np_mean (rows_at ?c k) + 1 / 2\<rfloor>" by simp_all
  from k have "rows_at ?c k \<noteq> []" by (rule rows_at_nonempty)
  from np_mean_bounds [OF this] round_half_up_bounds
  have "Min (set (rows_at ?c k)) \<le> \<lfloor>np_mean (rows_at ?c k) + 1 / 2\<rfloor> \<and>
        \<lfloor>np_mean (rows_at ?c k) + 1 / 2\<rfloor> \<le> Max (set (rows_at ?c k))"
    by blast
  with k v show ?thesis by simp
qed

text \<open>C10 at the same cluster, for the sample at column 2.\<close>
theorem normalize_within_rows_witness:
  "(2, 2) \<in> set (normalize_connected_components
      [[(1, 2), (2, 2), (5, 1), (4, 2), (2, 3), (3, 3)]] ! 0) \<and>
   Min (set (rows_at [(1, 2), (2, 2), (5, 1), (4, 2), (2, 3), (3, 3)] 2)) = 1 \<and>
   Max (set (rows_at [(1, 2), (2, 2), (5, 1), (4, 2), (2, 3), (3, 3)] 2)) = 4"
proof -
  have l: "(0::nat) < length [[(1, 2), (2, 2), (5, 1), (4, 2), (2, 3), (3, 3 :: int)]]" by simp
  have m: "(2, 2) \<in> set (normalize_connected_components
      [[(1, 2), (2, 2), (5, 1), (4, 2), (2, 3), (3, 3)]] ! 0)"
    by code_simp
  have e: "rows_at [(1, 2), (2, 2), (5, 1), (4, 2), (2, 3), (3, 3)] 2 = [1, 2, 4]"
    by (simp add: rows_at_def)
  from normalize_within_rows [OF l m] m show ?thesis
    by (simp add: e)
qed

subsection \<open>Padding and cropping\<close>

lemma crop_padded_plane:
  assumes "length m = h" and "\<forall>r \<in> set m. length r = w"
  shows "map (take w) (take h (map (\<lambda>r. r @ replicate x_dif z) m @ replicate h_dif zs)) = m"
proof -
  have "take h (map (\<lambda>r. r @ replicate x_dif z) m @ replicate h_dif zs)
        = map (\<lambda>r. r @ replicate x_dif z) m"
    using assms(1) by simp
  moreover have "map (take w) (map (\<lambda>r. r @ replicate x_dif z) m) = m"
    using assms(2) by (simp add: map_idI)
  ultimately show ?thesis by simp
qed

lemma crop_plane:
  assumes "length m = h" and "\<forall>r \<in> set m. length r = w"
  shows "map (take w) (take h m) = m"
  using assms by (simp add: map_idI)

lemma unpad_same_shape:
  assumes "wf_tensor t" and "shape t = (n, c, h, w)"
  shows "unpad t (h, w) = t"
proof -
  from assms have planes: "\<forall>p \<in> set (elems t). \<forall>m \<in> set p. length m = h \<and> (\<forall>r \<in> set m. length r = w)"
    by (auto simp: wf_tensor_def)
  have "map (map (\<lambda>m. map (take w) (take h m))) (elems t) = elems t"
  proof (rule map_idI)
    fix p assume p: "p \<in> set (elems t)"
    show "map (\<lambda>m. map (take w) (take h m)) p = p"
    proof (rule map_idI)
      fix m assume "m \<in> set p"
      with planes p have "length m = h" "\<forall>r \<in> set m. length r = w" by auto
      then show "map (take w) (take h m) = m" by (rule crop_plane)
    qed
  qed
  with assms(2) show ?thesis by (simp add: unpad_def)
qed

lemma unpad_F_pad:
  assumes "wf_tensor t" and "shape t = (n, c, h, w)"
  shows "unpad (F_pad t x_dif h_dif) (h, w) = t"
proof -
  from assms have planes: "\<forall>p \<in> set (elems t). \<forall>m \<in> set p. length m = h \<and> (\<forall>r \<in> set m. length r = w)"
    by (auto simp: wf_tensor_def)
  let ?padm = "\<lambda>m. map (\<lambda>r. r @ replicate x_dif 0) m @ replicate h_dif (replicate (w + x_dif) 0)"
  have "map (map (\<lambda>m. map (take w) (take h m))) (map (map ?padm) (elems t)) = elems t"
  proof -
    have "map (\<lambda>p. map (\<lambda>m. map (take w) (take h (?padm m))) p) (elems t) = elems t"
    proof (rule map_idI)
      fix p assume p: "p \<in> set (elems t)"
      show "map (\<lambda>m. map (take w) (take h (?padm m))) p = p"
      proof (rule map_idI)
        fix m assume "m \<in> set p"
        with planes p have "length m = h" "\<forall>r \<in> set m. length r = w" by auto
        then show "map (take w) (take h (?padm m)) = m" by (rule crop_padded_plane)
      qed
    qed
    then show ?thesis by (simp add: comp_def)
  qed
  with assms(2) show ?thesis by (simp add: unpad_def F_pad_def)
qed


text \<open>
  C9: for every four-dimensional tensor \<open>t\<close> of shape \<open>(n, c, h, w)\<close>, \<open>pad(t, 32)\<close> returns
  a tensor, and \<open>unpad\<close> of it with \<open>(h, w)\<close> is \<open>t\<close>.
\<close>
theorem unpad_pad_identity:
  assumes "wf_tensor t" and "shape t = (n, c, h, w)"
  shows "\<exists>p. pad t 32 = Inr p \<and> unpad p (h, w) = t"
proof -
  let ?x = "if (32::nat) \<noteq> 32 - w mod 32 then 32 - w mod 32 else 0"
  let ?h = "if (32::nat) \<noteq> 32 - h mod 32 then 32 - h mod 32 else 0"
  have "pad t 32 = Inr (if ?h \<noteq> 0 \<or> ?x \<noteq> 0 then F_pad t ?x ?h else t)"
    using assms(2) by (simp add: pad_def Let_def)
  moreover have "unpad (if ?h \<noteq> 0 \<or> ?x \<noteq> 0 then F_pad t ?x ?h else t) (h, w) = t"
    using unpad_F_pad [OF assms] unpad_same_shape [OF assms] by simp
  ultimately show ?thesis by blast
qed

text \<open>C9 at a tensor of shape \<open>(1, 1, 2, 3)\<close>.\<close>
theorem unpad_pad_identity_witness:
  "pad \<lparr>shape = (1, 1, 2, 3), elems = [[[[1, 2, 3], [4, 5, 6 :: int]]]]\<rparr> 32
     = Inr (F_pad \<lparr>shape = (1, 1, 2, 3), elems = [[[[1, 2, 3], [4, 5, 6]]]]\<rparr> 29 30) \<and>
   unpad (F_pad \<lparr>shape = (1, 1, 2, 3), elems = [[[[1, 2, 3], [4, 5, 6 :: int]]]]\<rparr> 29 30) (2, 3)
     = \<lparr>shape = (1, 1, 2, 3), elems = [[[[1, 2, 3], [4, 5, 6]]]]\<rparr>"
proof -
  let ?t = "\<lparr>shape = (1, 1, 2, 3), elems = [[[[1, 2, 3], [4, 5, 6 :: int]]]]\<rparr>"
  have w: "wf_tensor ?t" by (simp add: wf_tensor_def)
  have s: "shape ?t = (1, 1, 2, 3)" by simp
  have p: "pad ?t 32 = Inr (F_pad ?t 29 30)" by (simp add: pad_def Let_def)
  from unpad_pad_identity [OF w s] p show ?thesis by auto
qed

subsection \<open>The size filter and the later stages\<close>

lemma collect_Inr:
  "collect rs = Inr vs \<Longrightarrow> rs = map Inr vs"
proof (induction rs arbitrary: vs)
  case Nil
  then show ?case by simp
next
  case (Cons r rs)
  then show ?case by (auto split: sum.splits)
qed

lemma descriptors_cc:
  assumes "descriptors ccs ty = Inr ds"
  shows "map cc ds = filter (\<lambda>x. 10 < length (fst x)) ccs"
proof -
  let ?big = "filter (\<lambda>x. 10 < length (fst x)) ccs"
  from assms have eq: "map (\<lambda>x. Cc_with_type_init x ty) ?big = map Inr ds"
    unfolding descriptors_def by (rule collect_Inr)
  from arg_cong [OF eq, of length] have len: "length ds = length ?big"
    by simp
  show ?thesis
  proof (rule nth_equalityI)
    show "length (map cc ds) = length ?big" using len by simp
  next
    fix i assume "i < length (map cc ds)"
    then have i: "i < length ds" by simp
    with len have "map (\<lambda>x. Cc_with_type_init x ty) ?big ! i = Cc_with_type_init (?big ! i) ty"
      by simp
    moreover from i have "map Inr ds ! i = (Inr (ds ! i) :: error + Cc_with_type)" by simp
    ultimately have "Cc_with_type_init (?big ! i) ty = Inr (ds ! i)" using eq by simp
    from Cc_with_type_init_Inr [OF this] have "cc (ds ! i) = ?big ! i" by simp
    with i show "map cc ds ! i = ?big ! i" by simp
  qed
qed

lemma filter_removeAll_small:
  assumes "length (fst x) \<le> 10"
  shows "filter (\<lambda>c. 10 < length (fst c)) (removeAll x cs) = filter (\<lambda>c. 10 < length (fst c)) cs"
  using assms by (induction cs) auto

lemma descriptors_removeAll_small:
  assumes "length (fst x) \<le> 10"
  shows "descriptors (removeAll x cs) ty = descriptors cs ty"
  by (simp add: descriptors_def filter_removeAll_small [OF assms])

lemma extract_from_components_empty:
  "extract_from_components fit [] [] =
     (case fit [] of
        Inl e \<Rightarrow> Inl e
      | Inr ls \<Rightarrow> if ls = [] then Inr \<lparr>all_ccs = [], matrix = [], labels = [], polylines = []\<rparr>
                  else Inl IndexError)"
proof (cases "fit []")
  case (Inl e)
  then show ?thesis
    by (simp add: extract_from_components_def descriptors_def cluster_and_normalize_def
        calculate_distance_matrix_def)
next
  case (Inr ls)
  show ?thesis
  proof (cases ls)
    case Nil
    with Inr show ?thesis
      by (simp add: extract_from_components_def descriptors_def cluster_and_normalize_def
          calculate_distance_matrix_def np_unique_def normalize_connected_components_def)
  next
    case (Cons l ls')
    then have "np_unique ls \<noteq> []"
      by (metis list.discI np_unique_def remdups_eq_nil_iff set_empty set_sort)
    then obtain u us where u: "np_unique ls = u # us" by (cases "np_unique ls") auto
    then have "u \<in> set ls"
      by (metis list.set_intros(1) np_unique_def set_remdups set_sort)
    then obtain k where "k < length ls" "ls ! k = u" by (auto simp: in_set_conv_nth)
    then have "k \<in> set (np_where_eq ls u)" by (simp add: np_where_eq_def)
    then have "cluster_pixels [] ls u = Inl IndexError"
      by (auto simp: cluster_pixels_def Let_def)
    with Inr Cons u show ?thesis
      by (simp add: extract_from_components_def descriptors_def cluster_and_normalize_def
          calculate_distance_matrix_def)
  qed
qed


lemma descriptors_filter_big:
  "descriptors (filter (\<lambda>c. 10 < length (fst c)) cs) ty = descriptors cs ty"
  by (simp add: descriptors_def)

lemma collect_length:
  "collect rs = Inr vs \<Longrightarrow> length vs = length rs"
  using collect_Inr [of rs vs] by (metis length_map)

lemma zip_points_never: "collect (map zip_points ccs) = Inr pts \<Longrightarrow> ccs = []"
proof (cases ccs)
  case Nil
  then show ?thesis by simp
next
  case (Cons x xs)
  assume "collect (map zip_points ccs) = Inr pts"
  with Cons show ?thesis by (simp add: zip_points_def split: if_splits)
qed

lemma polylines_need_no_components:
  assumes "cluster_and_normalize fit ds = Inr s"
  shows "ds = [] \<and> all_ccs s = [] \<and> matrix s = [] \<and> labels s = [] \<and> polylines s = []"
proof -
  let ?m = "calculate_distance_matrix ds 50"
  from assms obtain ls where ls: "fit ?m = Inr ls"
    by (auto simp: cluster_and_normalize_def Let_def split: sum.splits)
  from assms ls have len: "length ds \<le> length ls"
    by (auto simp: cluster_and_normalize_def Let_def split: sum.splits if_splits)
  from assms ls len obtain ccs where
    ccs: "collect (map (cluster_pixels ds ls) (np_unique ls)) = Inr ccs"
    by (auto simp: cluster_and_normalize_def Let_def split: sum.splits if_splits)
  from assms ls len ccs obtain pts where
    pts: "collect (map zip_points ccs) = Inr pts"
    and s: "s = \<lparr>all_ccs = ds, matrix = ?m, labels = ls,
                 polylines = normalize_connected_components pts\<rparr>"
    by (auto simp: cluster_and_normalize_def Let_def split: sum.splits if_splits)
  from pts have e: "ccs = []" by (rule zip_points_never)
  with pts have p: "pts = []" by simp
  from collect_length [OF ccs] e have "np_unique ls = []" by simp
  moreover have "set (np_unique ls) = set ls" by (simp add: np_unique_def)
  ultimately have "ls = []" by simp
  with len have "ds = []" by simp
  with s p \<open>ls = []\<close> show ?thesis
    by (simp add: calculate_distance_matrix_def normalize_connected_components_def)
qed

text \<open>
  C7: a component \<open>x\<close> of at most 10 pixels is dropped before descriptors are built:
  removing it from the component list leaves the result of the descriptor stage unchanged,
  no descriptor carries it (every descriptor has more than 10 pixels), and the result of
  all later stages (matrix, labels, polylines, or the error raised) is the same with and
  without it; on every mask the result is a function of the components of more than 10
  pixels alone.  A component of 3 pixels is such an \<open>x\<close>.
\<close>
theorem small_components_dropped:
  assumes "length (fst x) \<le> 10"
  shows "descriptors (removeAll x cs) ty = descriptors cs ty \<and>
         (\<forall>ds. descriptors cs ty = Inr ds \<longrightarrow>
               x \<notin> cc ` set ds \<and> (\<forall>d \<in> set ds. 10 < length (fst (cc d)))) \<and>
         extract_from_components fit (removeAll x bs) (removeAll x bbs)
           = extract_from_components fit bs bbs \<and>
         extract_baselines label fit image_map b bb
           = extract_from_components fit
               (filter (\<lambda>c. 10 < length (fst c)) (components label (occupancy image_map b)))
               (filter (\<lambda>c. 10 < length (fst c)) (components label (occupancy image_map bb)))"
proof (intro conjI allI impI)
  show "descriptors (removeAll x cs) ty = descriptors cs ty"
    using assms by (rule descriptors_removeAll_small)
next
  fix ds assume "descriptors cs ty = Inr ds"
  then have m: "map cc ds = filter (\<lambda>x. 10 < length (fst x)) cs" by (rule descriptors_cc)
  have s: "cc ` set ds = set (map cc ds)" by simp
  show "x \<notin> cc ` set ds" using assms unfolding s m by auto
  show "\<forall>d \<in> set ds. 10 < length (fst (cc d))"
  proof
    fix d assume "d \<in> set ds"
    then have "cc d \<in> set (map cc ds)" by simp
    then show "10 < length (fst (cc d))" unfolding m by simp
  qed
next
  show "extract_from_components fit (removeAll x bs) (removeAll x bbs)
           = extract_from_components fit bs bbs"
    unfolding extract_from_components_def descriptors_removeAll_small [OF assms] ..
next
  show "extract_baselines label fit image_map b bb
           = extract_from_components fit
               (filter (\<lambda>c. 10 < length (fst c)) (components label (occupancy image_map b)))
               (filter (\<lambda>c. 10 < length (fst c)) (components label (occupancy image_map bb)))"
    unfolding extract_baselines_def extract_from_components_def descriptors_filter_big ..
qed

text \<open>C7 at a component of 3 pixels between two components of 11 pixels.\<close>
theorem small_components_dropped_witness:
  "descriptors [cc d_low, hbar 3 30 3, cc d_step] ''baseline'' = Inr [d_low, d_step] \<and>
   descriptors (removeAll (hbar 3 30 3) [cc d_low, hbar 3 30 3, cc d_step]) ''baseline''
     = Inr [d_low, d_step] \<and>
   hbar 3 30 3 \<notin> cc ` set [d_low, d_step]"
proof -
  have small: "length (fst (hbar 3 30 3)) \<le> 10" by (simp add: hbar_def)
  have d: "descriptors [cc d_low, hbar 3 30 3, cc d_step] ''baseline'' = Inr [d_low, d_step]"
    unfolding d_low_def d_step_def hbar_def by code_simp
  note t = small_components_dropped [OF small, of "[cc d_low, hbar 3 30 3, cc d_step]" "''baseline''"]
  from t [THEN conjunct1] d
  have r: "descriptors (removeAll (hbar 3 30 3) [cc d_low, hbar 3 30 3, cc d_step]) ''baseline''
     = Inr [d_low, d_step]" by (simp only:)
  from t [THEN conjunct2, THEN conjunct1] d
  have "hbar 3 30 3 \<notin> cc ` set [d_low, d_step]" by blast
  with d r show ?thesis by blast
qed

end
